theory Spec2Isabelle
  imports Main "HOL-Library.Product_Lexorder"
begin

section \<open>Data model\<close>

text \<open>
  A cell is a pair \<open>(row, col)\<close> of Python integers. A \<open>Sentence\<close> holds a Python set
  of cells and an integer count. The agent keeps \<open>moves_made\<close> as a set, and
  \<open>mines\<close> and \<open>safes\<close> as lists (\<open>list()\<close> in \<open>__init__\<close>, extended with
  \<open>append\<close>), and the knowledge base as a list of sentences.
\<close>

type_synonym cell = "int \<times> int"

datatype error = ValueError

record sentence =
  cells :: "cell set"
  count :: int

record agent =
  height :: int
  width :: int
  moves_made :: "cell set"
  mines :: "cell list"
  safes :: "cell list"
  knowledge :: "sentence list"

section \<open>Sentence\<close>

text \<open>\<open>Sentence.__init__\<close>: the cell collection is copied into a fresh set.\<close>

definition Sentence :: "cell set \<Rightarrow> int \<Rightarrow> sentence" where
  "Sentence cs n = \<lparr>cells = cs, count = n\<rparr>"

text \<open>
  The two queries return a set and assign nothing; each is modelled as a call that
  returns the result together with the sentence after the call.
\<close>

definition known_mines :: "sentence \<Rightarrow> cell set \<times> sentence" where
  "known_mines s = (if int (card (cells s)) = count s then (cells s, s) else ({}, s))"

definition known_safes :: "sentence \<Rightarrow> cell set \<times> sentence" where
  "known_safes s = (if count s = 0 then (cells s, s) else ({}, s))"

definition Sentence_mark_mine :: "sentence \<Rightarrow> cell \<Rightarrow> sentence" where
  "Sentence_mark_mine s c =
     (if c \<in> cells s then s\<lparr>count := count s - 1, cells := cells s - {c}\<rparr> else s)"

definition Sentence_mark_safe :: "sentence \<Rightarrow> cell \<Rightarrow> sentence" where
  "Sentence_mark_safe s c =
     (if c \<in> cells s then s\<lparr>cells := cells s - {c}\<rparr> else s)"

text \<open>The sentence invariant of the specification, and sequences of mark calls.\<close>

definition sentence_inv :: "sentence \<Rightarrow> bool" where
  "sentence_inv s = (0 \<le> count s \<and> count s \<le> int (card (cells s)))"

datatype mark = Mark_mine cell | Mark_safe cell

fun apply_mark :: "sentence \<Rightarrow> mark \<Rightarrow> sentence" where
  "apply_mark s (Mark_mine c) = Sentence_mark_mine s c"
| "apply_mark s (Mark_safe c) = Sentence_mark_safe s c"

text \<open>The sentence as it stands after each call of a sequence, in order.\<close>

fun run_marks :: "sentence \<Rightarrow> mark list \<Rightarrow> sentence list" where
  "run_marks s [] = []"
| "run_marks s (m # ms) = apply_mark s m # run_marks (apply_mark s m) ms"

text \<open>
  A call is consistent with the sentence it is applied to when it does not mark as a
  mine a cell of a sentence with no mine left to place, and does not mark as safe a
  cell of a sentence all of whose cells are mines.
\<close>

fun mark_consistent :: "sentence \<Rightarrow> mark \<Rightarrow> bool" where
  "mark_consistent s (Mark_mine c) = (c \<notin> cells s \<or> 0 < count s)"
| "mark_consistent s (Mark_safe c) = (c \<notin> cells s \<or> count s < int (card (cells s)))"

fun marks_consistent :: "sentence \<Rightarrow> mark list \<Rightarrow> bool" where
  "marks_consistent s [] = True"
| "marks_consistent s (m # ms) =
     (mark_consistent s m \<and> marks_consistent (apply_mark s m) ms)"

section \<open>MinesweeperAI\<close>

definition MinesweeperAI :: "int \<Rightarrow> int \<Rightarrow> agent" where
  "MinesweeperAI h w =
     \<lparr>height = h, width = w, moves_made = {}, mines = [], safes = [], knowledge = []\<rparr>"

definition mark_mine :: "agent \<Rightarrow> cell \<Rightarrow> agent" where
  "mark_mine a c =
     a\<lparr>mines := mines a @ [c],
       knowledge := map (\<lambda>s. Sentence_mark_mine s c) (knowledge a)\<rparr>"

definition mark_safe :: "agent \<Rightarrow> cell \<Rightarrow> agent" where
  "mark_safe a c =
     a\<lparr>safes := safes a @ [c],
       knowledge := map (\<lambda>s. Sentence_mark_safe s c) (knowledge a)\<rparr>"

text \<open>
  The two nested \<open>range\<close> loops of \<open>add_knowledge\<close>, in their order of visit,
  without the cell itself and clipped to the board.
\<close>

definition neighbours :: "agent \<Rightarrow> cell \<Rightarrow> cell list" where
  "neighbours a cell =
     [(i, j). i \<leftarrow> [fst cell - 1 .. fst cell + 1], j \<leftarrow> [snd cell - 1 .. snd cell + 1],
              (i, j) \<noteq> cell,
              0 \<le> i \<and> i < height a \<and> 0 \<le> j \<and> j < width a]"

text \<open>
  The sentence built at lines 185-198: a neighbour is appended to \<open>cells\<close> when it is
  not in \<open>safes\<close>, and \<open>known_mines\<close> is incremented when it is in \<open>mines\<close>; the two
  tests are independent of each other.
\<close>

definition new_sentence :: "agent \<Rightarrow> cell \<Rightarrow> int \<Rightarrow> sentence" where
  "new_sentence a cell cnt =
     (let nbrs = neighbours a cell;
          cs = filter (\<lambda>p. p \<notin> set (safes a)) nbrs;
          known = int (length (filter (\<lambda>p. p \<in> set (mines a)) nbrs))
      in Sentence (set cs) (cnt - known))"

text \<open>
  \<open>list.remove\<close> deletes the first element equal to its argument and raises
  \<open>ValueError\<close> when there is none.
\<close>

fun remove_all :: "sentence list \<Rightarrow> sentence list \<Rightarrow> error + sentence list" where
  "remove_all [] K = Inr K"
| "remove_all (s # ss) K =
     (if s \<in> set K then remove_all ss (remove1 s K) else Inl ValueError)"

text \<open>One step of the inner loop of lines 219-228, on the pair of indices \<open>i < j\<close>.\<close>

definition pair_step ::
  "sentence list \<Rightarrow> nat \<Rightarrow> nat \<Rightarrow> sentence list \<times> sentence list
     \<Rightarrow> sentence list \<times> sentence list" where
  "pair_step K i j acc =
     (case acc of (removed_sentences_2, added_sentences) \<Rightarrow>
        if K ! i = K ! j then (removed_sentences_2 @ [K ! j], added_sentences)
        else if cells (K ! i) \<inter> cells (K ! j) = cells (K ! j)
        then (removed_sentences_2,
              added_sentences @
                [Sentence (cells (K ! i) - cells (K ! j)) (count (K ! i) - count (K ! j))])
        else if cells (K ! j) \<inter> cells (K ! i) = cells (K ! i)
        then (removed_sentences_2,
              added_sentences @
                [Sentence (cells (K ! j) - cells (K ! i)) (count (K ! j) - count (K ! i))])
        else (removed_sentences_2, added_sentences))"

definition subset_scan :: "sentence list \<Rightarrow> sentence list \<times> sentence list" where
  "subset_scan K =
     fold (\<lambda>i acc. fold (pair_step K i) [i + 1 ..< length K] acc)
          [0 ..< length K - 1] ([], [])"

text \<open>
  Lines 200-235, the simplification pass that ends \<open>add_knowledge\<close>. The order in
  which Python iterates over the sets \<open>safe_cells\<close> and \<open>mine_cells\<close> is not fixed by
  the language; it is the parameter \<open>ord\<close>.
\<close>

definition simplify :: "(cell set \<Rightarrow> cell list) \<Rightarrow> agent \<Rightarrow> error + agent" where
  "simplify ord a =
     (let removed_sentences = filter (\<lambda>s. cells s = {}) (knowledge a);
          safe_cells = fold (\<lambda>s acc. acc \<union> fst (known_safes s)) (knowledge a) {};
          mine_cells = fold (\<lambda>s acc. acc \<union> fst (known_mines s)) (knowledge a) {};
          a1 = fold (\<lambda>c b. mark_safe b c) (ord safe_cells) a;
          a2 = fold (\<lambda>c b. mark_mine b c) (ord mine_cells) a1
      in case remove_all removed_sentences (knowledge a2) of
           Inl e \<Rightarrow> Inl e
         | Inr K3 \<Rightarrow>
             (case subset_scan K3 of (removed_sentences_2, added_sentences) \<Rightarrow>
                let K4 = fold (\<lambda>s K. if s \<in> set K then remove1 s K else K)
                              removed_sentences_2 K3;
                    K5 = fold (\<lambda>s K. if s \<notin> set K then K @ [s] else K)
                              added_sentences K4
                in Inr (a2\<lparr>knowledge := K5\<rparr>)))"

definition add_knowledge ::
  "(cell set \<Rightarrow> cell list) \<Rightarrow> agent \<Rightarrow> cell \<Rightarrow> int \<Rightarrow> error + agent" where
  "add_knowledge ord a cell cnt =
     (let a1 = a\<lparr>moves_made := insert cell (moves_made a)\<rparr>;
          a2 = mark_safe a1 cell;
          a3 = a2\<lparr>knowledge := knowledge a2 @ [new_sentence a2 cell cnt]\<rparr>
      in simplify ord a3)"

definition make_safe_move :: "agent \<Rightarrow> cell option \<times> agent" where
  "make_safe_move a =
     (find (\<lambda>move. move \<notin> moves_made a \<and> move \<notin> set (mines a)) (safes a), a)"

text \<open>
  \<open>make_random_move\<close>: \<open>rnd i\<close> is the pair drawn by the two \<open>randrange\<close> calls of
  attempt \<open>i\<close>; \<open>randrange(0, n)\<close> raises \<open>ValueError\<close> when \<open>n \<le> 0\<close>.
\<close>

fun random_attempts :: "(nat \<Rightarrow> cell) \<Rightarrow> agent \<Rightarrow> nat \<Rightarrow> nat \<Rightarrow> cell option" where
  "random_attempts rnd a i 0 = None"
| "random_attempts rnd a i (Suc n) =
     (let move = rnd i
      in if move \<notin> set (mines a) \<and> move \<notin> moves_made a then Some move
         else random_attempts rnd a (Suc i) n)"

definition make_random_move :: "(nat \<Rightarrow> cell) \<Rightarrow> agent \<Rightarrow> (error + cell option) \<times> agent" where
  "make_random_move rnd a =
     (if height a \<le> 0 \<or> width a \<le> 0 then (Inl ValueError, a)
      else (Inr (random_attempts rnd a 0 500), a))"

text \<open>
  \<open>Minesweeper.nearby_mines\<close>, the count the board reports for a revealed cell;
  \<open>board\<close> is the list of rows of booleans.
\<close>

definition nearby_mines :: "int \<Rightarrow> int \<Rightarrow> bool list list \<Rightarrow> cell \<Rightarrow> int" where
  "nearby_mines h w board cell =
     int (length
       [(i, j). i \<leftarrow> [fst cell - 1 .. fst cell + 1], j \<leftarrow> [snd cell - 1 .. snd cell + 1],
                (i, j) \<noteq> cell,
                0 \<le> i \<and> i < h \<and> 0 \<le> j \<and> j < w,
                board ! nat i ! nat j])"


text \<open>An iteration order lists exactly the elements of every finite set.\<close>

definition enumerates :: "(cell set \<Rightarrow> cell list) \<Rightarrow> bool" where
  "enumerates ord = (\<forall>S. finite S \<longrightarrow> set (ord S) = S)"

text \<open>
  The state on which the pass of \<open>add_knowledge\<close> starts: the move recorded, the cell
  marked safe and the new sentence appended (lines 183-199).
\<close>

definition revealed :: "agent \<Rightarrow> cell \<Rightarrow> int \<Rightarrow> agent" where
  "revealed a cell cnt =
     (let a2 = mark_safe (a\<lparr>moves_made := insert cell (moves_made a)\<rparr>) cell
      in a2\<lparr>knowledge := knowledge a2 @ [new_sentence a2 cell cnt]\<rparr>)"

text \<open>
  The sets \<open>safe_cells\<close> and \<open>mine_cells\<close> collected by the first loop of the pass, and
  a sentence after the two marking loops.
\<close>

definition safe_cells_of :: "agent \<Rightarrow> cell set" where
  "safe_cells_of a = (\<Union>s \<in> set (knowledge a). fst (known_safes s))"

definition mine_cells_of :: "agent \<Rightarrow> cell set" where
  "mine_cells_of a = (\<Union>s \<in> set (knowledge a). fst (known_mines s))"

definition marked :: "(cell set \<Rightarrow> cell list) \<Rightarrow> agent \<Rightarrow> sentence \<Rightarrow> sentence" where
  "marked ord a s = fold (\<lambda>c s. Sentence_mark_mine s c) (ord (mine_cells_of a))
                      (fold (\<lambda>c s. Sentence_mark_safe s c) (ord (safe_cells_of a)) s)"

text \<open>
  What the subset scan collects: a sentence queued for removal occurs at least twice
  in the list scanned, and a sentence queued for addition has its cells among those
  of a sentence of the list.
\<close>

definition scan_ok :: "sentence list \<Rightarrow> sentence list \<times> sentence list \<Rightarrow> bool" where
  "scan_ok K acc = ((\<forall>x \<in> set (fst acc). 2 \<le> count_list K x)
     \<and> (\<forall>x \<in> set (snd acc). \<exists>s \<in> set K. cells x \<subseteq> cells s))"

section \<open>Sentence: queries and marking\<close>

lemma card_Diff1_int:
  "c \<in> A \<Longrightarrow> finite A \<Longrightarrow> int (card (A - {c})) = int (card A) - 1"
  using card_gt_0_iff[of A] by (auto simp: card_Diff_singleton of_nat_diff)

text \<open>
  C7. \<open>known_mines\<close> returns the cell set when its size equals the count and the
  empty set otherwise; \<open>known_safes\<close> returns the cell set when the count is zero and
  the empty set otherwise; neither changes the sentence. For the finite sets Python
  holds, a non-empty answer of \<open>known_mines\<close> means \<open>count = |cells| > 0\<close>, and a
  non-empty answer of \<open>known_safes\<close> means \<open>count = 0\<close> and \<open>|cells| > 0\<close>.
\<close>

theorem known_queries:
  "fst (known_mines s) = (if int (card (cells s)) = count s then cells s else {})
   \<and> fst (known_safes s) = (if count s = 0 then cells s else {})
   \<and> snd (known_mines s) = s \<and> snd (known_safes s) = s
   \<and> (finite (cells s) \<longrightarrow>
        (fst (known_mines s) \<noteq> {} \<longrightarrow> count s = int (card (cells s)) \<and> 0 < card (cells s))
      \<and> (fst (known_safes s) \<noteq> {} \<longrightarrow> count s = 0 \<and> 0 < card (cells s)))"
  by (auto simp: known_mines_def known_safes_def card_gt_0_iff)

theorem known_queries_witness:
  "finite (cells (Sentence {(0,1)} 1)) \<and> fst (known_mines (Sentence {(0,1)} 1)) = {(0,1)}
   \<and> fst (known_safes (Sentence {(0,1)} 1)) = {}
   \<and> fst (known_safes (Sentence {(0,1), (1,0)} 0)) = {(0,1), (1,0)}
   \<and> fst (known_mines (Sentence {(0,1), (1,0)} 0)) = {}
   \<and> count (Sentence {(0,1)} 1) = int (card (cells (Sentence {(0,1)} 1)))
   \<and> 0 < card (cells (Sentence {(0,1)} 1))"
  using known_queries [of "Sentence {(0,1)} 1"] known_queries [of "Sentence {(0,1), (1,0)} 0"]
  by (simp add: Sentence_def)

lemma mark_consistent_inv:
  "sentence_inv s \<Longrightarrow> mark_consistent s m \<Longrightarrow> sentence_inv (apply_mark s m)"
proof (cases m)
  case (Mark_mine c)
  assume inv: "sentence_inv s" and ok: "mark_consistent s m"
  show ?thesis
  proof (cases "c \<in> cells s")
    case False
    with inv Mark_mine show ?thesis by (simp add: Sentence_mark_mine_def)
  next
    case True
    with ok Mark_mine have pos: "0 < count s" by simp
    with inv have "0 < card (cells s)" by (simp add: sentence_inv_def)
    then have "finite (cells s)" by (simp add: card_gt_0_iff)
    with True have "int (card (cells s - {c})) = int (card (cells s)) - 1"
      by (rule card_Diff1_int)
    with inv pos True Mark_mine show ?thesis
      by (simp add: Sentence_mark_mine_def sentence_inv_def)
  qed
next
  case (Mark_safe c)
  assume inv: "sentence_inv s" and ok: "mark_consistent s m"
  show ?thesis
  proof (cases "c \<in> cells s")
    case False
    with inv Mark_safe show ?thesis by (simp add: Sentence_mark_safe_def)
  next
    case True
    with ok Mark_safe have lt: "count s < int (card (cells s))" by simp
    with inv have "0 < card (cells s)" by (simp add: sentence_inv_def)
    then have "finite (cells s)" by (simp add: card_gt_0_iff)
    with True have "int (card (cells s - {c})) = int (card (cells s)) - 1"
      by (rule card_Diff1_int)
    with inv lt True Mark_safe show ?thesis
      by (simp add: Sentence_mark_safe_def sentence_inv_def)
  qed
qed

text \<open>
  C5, as stated, fails: \<open>Sentence.mark_safe\<close> removes the only cell of the sentence
  \<open>{(0,1)} = 1\<close> and leaves the count at 1, above the size of the cell set.
\<close>

theorem mark_safe_breaks_invariant:
  "sentence_inv (Sentence {(0,1)} 1)
   \<and> \<not> list_all sentence_inv (run_marks (Sentence {(0,1)} 1) [Mark_safe (0,1)])"
  by (simp add: sentence_inv_def Sentence_def Sentence_mark_safe_def)

text \<open>
  C5, amended. When \<open>0 \<le> count \<le> |cells|\<close> holds initially, it holds after each call
  of a sequence of \<open>mark_mine\<close> and \<open>mark_safe\<close> calls in which every \<open>mark_mine\<close> of a
  cell of the sentence is made while the count is positive, and every \<open>mark_safe\<close> of
  a cell of the sentence while the count is below the number of cells.
\<close>

theorem marks_keep_invariant:
  "sentence_inv s \<Longrightarrow> marks_consistent s ms \<Longrightarrow> list_all sentence_inv (run_marks s ms)"
proof (induction ms arbitrary: s)
  case Nil
  then show ?case by simp
next
  case (Cons m ms)
  then show ?case by (simp add: mark_consistent_inv)
qed

theorem marks_keep_invariant_witness:
  "sentence_inv (Sentence {(0,1), (1,0)} 1)
   \<and> marks_consistent (Sentence {(0,1), (1,0)} 1)
        [Mark_safe (0,1), Mark_mine (1,0), Mark_mine (2,2)]
   \<and> list_all sentence_inv
        (run_marks (Sentence {(0,1), (1,0)} 1)
           [Mark_safe (0,1), Mark_mine (1,0), Mark_mine (2,2)])"
proof -
  have i: "sentence_inv (Sentence {(0,1), (1,0)} 1)"
    by (simp add: sentence_inv_def Sentence_def)
  have c: "marks_consistent (Sentence {(0,1), (1,0)} 1)
             [Mark_safe (0,1), Mark_mine (1,0), Mark_mine (2,2)]"
    by (simp add: Sentence_def Sentence_mark_safe_def Sentence_mark_mine_def)
  from marks_keep_invariant [OF i c] i c show ?thesis by simp
qed

section \<open>Agent: marking and move selection\<close>

lemma Sentence_mark_safe_twice:
  "Sentence_mark_safe (Sentence_mark_safe s c) c = Sentence_mark_safe s c"
  by (simp add: Sentence_mark_safe_def)

lemma Sentence_mark_mine_twice:
  "Sentence_mark_mine (Sentence_mark_mine s c) c = Sentence_mark_mine s c"
  by (simp add: Sentence_mark_mine_def)

text \<open>
  C6, as stated, fails: \<open>safes\<close> and \<open>mines\<close> are lists and each call appends the
  cell, so the second call leaves one more occurrence of it.
\<close>

theorem mark_twice_differs:
  "mark_safe (mark_safe (MinesweeperAI 8 8) (0,0)) (0,0) \<noteq> mark_safe (MinesweeperAI 8 8) (0,0)
   \<and> mark_mine (mark_mine (MinesweeperAI 8 8) (0,0)) (0,0) \<noteq> mark_mine (MinesweeperAI 8 8) (0,0)"
  by (simp add: mark_safe_def mark_mine_def MinesweeperAI_def)

text \<open>
  C6, amended. A second \<open>mark_safe(c)\<close> changes nothing but the list \<open>safes\<close>, which
  gains one more occurrence of \<open>c\<close>: the knowledge base, \<open>moves_made\<close>, \<open>mines\<close> and
  the set of cells in \<open>safes\<close> are those after the first call. The same holds for
  \<open>mark_mine(c)\<close> and the list \<open>mines\<close>.
\<close>

theorem mark_twice:
  "mark_safe (mark_safe a c) c = (mark_safe a c)\<lparr>safes := safes (mark_safe a c) @ [c]\<rparr>
   \<and> set (safes (mark_safe (mark_safe a c) c)) = set (safes (mark_safe a c))
   \<and> mark_mine (mark_mine a c) c = (mark_mine a c)\<lparr>mines := mines (mark_mine a c) @ [c]\<rparr>
   \<and> set (mines (mark_mine (mark_mine a c) c)) = set (mines (mark_mine a c))"
  by (auto simp: mark_safe_def mark_mine_def Sentence_mark_safe_twice Sentence_mark_mine_twice)

theorem mark_twice_witness:
  "mark_safe (mark_safe (MinesweeperAI 8 8) (0,0)) (0,0)
     = (MinesweeperAI 8 8)\<lparr>safes := [(0,0), (0,0)]\<rparr>
   \<and> mark_mine (mark_mine (MinesweeperAI 8 8) (0,0)) (0,0)
     = (MinesweeperAI 8 8)\<lparr>mines := [(0,0), (0,0)]\<rparr>"
  using mark_twice [of "MinesweeperAI 8 8" "(0,0)"]
  by (simp add: mark_safe_def mark_mine_def MinesweeperAI_def)

text \<open>
  C8. A cell returned by \<open>make_safe_move\<close> is in \<open>safes\<close>, not in \<open>moves_made\<close> and
  not in \<open>mines\<close>; the call leaves the agent as it was; a second call on the
  unchanged agent returns the same result.
\<close>

theorem make_safe_move_result:
  "snd (make_safe_move a) = a
   \<and> (\<forall>c. fst (make_safe_move a) = Some c \<longrightarrow>
         c \<in> set (safes a) \<and> c \<notin> moves_made a \<and> c \<notin> set (mines a))
   \<and> fst (make_safe_move (snd (make_safe_move a))) = fst (make_safe_move a)"
  by (auto simp: make_safe_move_def find_Some_iff)

theorem make_safe_move_result_witness:
  "fst (make_safe_move \<lparr>height = 2, width = 2, moves_made = {(0,0)}, mines = [(0,1)],
          safes = [(0,0), (0,1), (1,1)], knowledge = []\<rparr>) = Some (1,1)
   \<and> (1,1) \<in> set [(0,0), (0,1), (1,1)] \<and> (1,1) \<notin> {(0::int,0::int)} \<and> (1,1) \<notin> set [(0::int,1::int)]"
  using make_safe_move_result [of "\<lparr>height = 2, width = 2, moves_made = {(0,0)}, mines = [(0,1)],
          safes = [(0,0), (0,1), (1,1)], knowledge = []\<rparr>"]
  by (simp add: make_safe_move_def)

lemma random_attempts_Some:
  "random_attempts rnd a i n = Some c \<Longrightarrow>
     c \<notin> set (mines a) \<and> c \<notin> moves_made a \<and> (\<exists>k. i \<le> k \<and> k < i + n \<and> rnd k = c)"
proof (induction n arbitrary: i)
  case 0
  then show ?case by simp
next
  case (Suc n)
  show ?case
  proof (cases "rnd i \<notin> set (mines a) \<and> rnd i \<notin> moves_made a")
    case True
    with Suc.prems have "c = rnd i" by (simp add: Let_def)
    with True show ?thesis by auto
  next
    case False
    with Suc.prems have "random_attempts rnd a (Suc i) n = Some c" by (auto simp: Let_def)
    from Suc.IH [OF this] show ?thesis
      by (metis Suc_leD add_Suc_shift)
  qed
qed

lemma random_attempts_None:
  "random_attempts rnd a i n = None \<longleftrightarrow>
     (\<forall>k. i \<le> k \<and> k < i + n \<longrightarrow> rnd k \<in> set (mines a) \<or> rnd k \<in> moves_made a)"
proof (induction n arbitrary: i)
  case 0
  then show ?case by auto
next
  case (Suc n)
  show ?case
  proof (cases "rnd i \<notin> set (mines a) \<and> rnd i \<notin> moves_made a")
    case True
    then show ?thesis by (auto simp: Let_def)
  next
    case False
    then have "random_attempts rnd a i (Suc n) = random_attempts rnd a (Suc i) n"
      by (auto simp: Let_def)
    moreover have "(\<forall>k. i \<le> k \<and> k < i + Suc n \<longrightarrow> rnd k \<in> set (mines a) \<or> rnd k \<in> moves_made a)
       \<longleftrightarrow> (\<forall>k. Suc i \<le> k \<and> k < Suc i + n \<longrightarrow> rnd k \<in> set (mines a) \<or> rnd k \<in> moves_made a)"
      using False by (metis Suc_leD Suc_leI add_Suc_shift add_Suc_right le_neq_implies_less)
    ultimately show ?thesis using Suc.IH [of "Suc i"] by simp
  qed
qed

text \<open>
  C9. For every agent and every sequence of sampled cells, a cell returned by
  \<open>make_random_move\<close> is neither in \<open>mines\<close> nor in \<open>moves_made\<close>, and the call
  returns \<open>None\<close> only when each of the 500 attempts drew a cell in \<open>mines\<close> or in
  \<open>moves_made\<close>. The call leaves the agent as it was.
\<close>

theorem make_random_move_result:
  "snd (make_random_move rnd a) = a
   \<and> (\<forall>c. fst (make_random_move rnd a) = Inr (Some c) \<longrightarrow>
         c \<notin> set (mines a) \<and> c \<notin> moves_made a)
   \<and> (fst (make_random_move rnd a) = Inr None \<longrightarrow>
         (\<forall>k < 500. rnd k \<in> set (mines a) \<or> rnd k \<in> moves_made a))"
  using random_attempts_None [of rnd a 0 500]
  by (auto simp: make_random_move_def dest: random_attempts_Some)

theorem make_random_move_result_witness:
  "fst (make_random_move (\<lambda>k. if k < 3 then (0, 0) else (0, int k))
          \<lparr>height = 1, width = 600, moves_made = {(0,0)}, mines = [], safes = [(0,0)], knowledge = []\<rparr>)
     = Inr (Some (0, 3))
   \<and> fst (make_random_move (\<lambda>k. (0, 0))
          \<lparr>height = 1, width = 1, moves_made = {(0,0)}, mines = [], safes = [(0,0)], knowledge = []\<rparr>)
     = Inr None
   \<and> (0::int, 0::int) \<in> {(0::int, 0::int)}"
proof -
  let ?a = "\<lparr>height = 1, width = 600, moves_made = {(0,0)}, mines = [], safes = [(0,0)], knowledge = []\<rparr>"
  let ?b = "\<lparr>height = 1, width = 1, moves_made = {(0,0)}, mines = [], safes = [(0,0)], knowledge = []\<rparr>"
  have 1: "random_attempts (\<lambda>k. if k < 3 then (0, 0) else (0, int k)) ?a 0 500 = Some (0, 3)"
    by (simp add: eval_nat_numeral)
  have 2: "random_attempts (\<lambda>k. (0, 0)) ?b 0 500 = None"
    by (simp add: random_attempts_None)
  from 1 2 make_random_move_result [of "\<lambda>k. if k < 3 then (0, 0) else (0, int k)" ?a]
    make_random_move_result [of "\<lambda>k. (0, 0)" ?b]
  show ?thesis by (simp add: make_random_move_def)
qed

text \<open>
  C10. \<open>make_safe_move\<close> returns \<open>None\<close> exactly when no cell of \<open>safes\<close> lies outside
  both \<open>moves_made\<close> and \<open>mines\<close>. The agent's \<open>mark_safe(c)\<close> and \<open>mark_mine(c)\<close>
  leave \<open>moves_made\<close> and the number of sentences as they were; each sentence keeps
  its cells other than \<open>c\<close>, and \<open>mark_safe\<close> keeps every count.
\<close>

theorem move_and_mark_frame:
  "(fst (make_safe_move a) = None \<longleftrightarrow>
      \<not> (\<exists>c \<in> set (safes a). c \<notin> moves_made a \<and> c \<notin> set (mines a)))
   \<and> moves_made (mark_safe a c) = moves_made a \<and> moves_made (mark_mine a c) = moves_made a
   \<and> length (knowledge (mark_safe a c)) = length (knowledge a)
   \<and> length (knowledge (mark_mine a c)) = length (knowledge a)
   \<and> (\<forall>i < length (knowledge a).
        cells (knowledge (mark_safe a c) ! i) = cells (knowledge a ! i) - {c}
        \<and> count (knowledge (mark_safe a c) ! i) = count (knowledge a ! i)
        \<and> cells (knowledge (mark_mine a c) ! i) = cells (knowledge a ! i) - {c})"
  by (auto simp: make_safe_move_def find_None_iff mark_safe_def mark_mine_def
        Sentence_mark_safe_def Sentence_mark_mine_def)

theorem move_and_mark_frame_witness:
  "fst (make_safe_move \<lparr>height = 2, width = 2, moves_made = {(0,0)}, mines = [],
          safes = [(0,0)], knowledge = [Sentence {(0,1), (1,0)} 1]\<rparr>) = None
   \<and> \<not> (\<exists>c \<in> set [(0::int, 0::int)]. c \<notin> {(0,0)} \<and> c \<notin> set [])
   \<and> (0::nat) < length [Sentence {(0,1), (1,0)} 1]
   \<and> cells (knowledge (mark_safe \<lparr>height = 2, width = 2, moves_made = {(0,0)}, mines = [],
          safes = [(0,0)], knowledge = [Sentence {(0,1), (1,0)} 1]\<rparr> (0,1)) ! 0) = {(1,0)}
   \<and> count (knowledge (mark_safe \<lparr>height = 2, width = 2, moves_made = {(0,0)}, mines = [],
          safes = [(0,0)], knowledge = [Sentence {(0,1), (1,0)} 1]\<rparr> (0,1)) ! 0) = 1
   \<and> cells (knowledge (mark_mine \<lparr>height = 2, width = 2, moves_made = {(0,0)}, mines = [],
          safes = [(0,0)], knowledge = [Sentence {(0,1), (1,0)} 1]\<rparr> (0,1)) ! 0) = {(1,0)}"
  using move_and_mark_frame [of "\<lparr>height = 2, width = 2, moves_made = {(0,0)}, mines = [],
          safes = [(0,0)], knowledge = [Sentence {(0,1), (1,0)} 1]\<rparr>" "(0,1)"]
  by (auto simp: Sentence_def)

section \<open>add_knowledge\<close>

text \<open>
  C2. The claim asks that a neighbour already known to be a mine be left out of the
  new sentence while the count is decremented for it. The code decrements the count
  but tests only \<open>safes\<close> before appending the neighbour: after \<open>(0,0)\<close> is revealed
  with count 1 on a 1 by 3 board, \<open>(0,1)\<close> is a known mine, and the sentence built for
  \<open>(0,2)\<close> with count 1 is \<open>{(0,1)} = 0\<close>.
\<close>

theorem new_sentence_keeps_known_mine:
  "add_knowledge sorted_list_of_set (MinesweeperAI 1 3) (0,0) 1
     = Inr \<lparr>height = 1, width = 3, moves_made = {(0,0)}, mines = [(0,1)],
            safes = [(0,0)], knowledge = [\<lparr>cells = {}, count = 0\<rparr>]\<rparr>
   \<and> new_sentence
        (mark_safe \<lparr>height = 1, width = 3, moves_made = {(0,2), (0,0)}, mines = [(0,1)],
                    safes = [(0,0)], knowledge = [\<lparr>cells = {}, count = 0\<rparr>]\<rparr> (0,2))
        (0,2) 1
     = \<lparr>cells = {(0,1)}, count = 0\<rparr>"
  by code_simp

text \<open>
  C4. On the 1 by 3 board whose only mine is \<open>(0,1)\<close>, revealing \<open>(0,0)\<close> and then
  \<open>(0,2)\<close>, each with the count 1 the board reports, leaves \<open>(0,1)\<close> in both \<open>safes\<close>
  and \<open>mines\<close>.
\<close>

theorem safes_and_mines_overlap:
  "nearby_mines 1 3 [[False, True, False]] (0,0) = 1
   \<and> nearby_mines 1 3 [[False, True, False]] (0,2) = 1
   \<and> add_knowledge sorted_list_of_set (MinesweeperAI 1 3) (0,0) 1
     = Inr \<lparr>height = 1, width = 3, moves_made = {(0,0)}, mines = [(0,1)],
            safes = [(0,0)], knowledge = [\<lparr>cells = {}, count = 0\<rparr>]\<rparr>
   \<and> add_knowledge sorted_list_of_set
        \<lparr>height = 1, width = 3, moves_made = {(0,0)}, mines = [(0,1)],
         safes = [(0,0)], knowledge = [\<lparr>cells = {}, count = 0\<rparr>]\<rparr> (0,2) 1
     = Inr \<lparr>height = 1, width = 3, moves_made = {(0,2), (0,0)}, mines = [(0,1)],
            safes = [(0,0), (0,2), (0,1)], knowledge = [\<lparr>cells = {}, count = 0\<rparr>]\<rparr>
   \<and> set [(0,0), (0,2), (0::int,1::int)] \<inter> set [(0,1)] = {(0,1)}"
  by code_simp







section \<open>The pass, in general\<close>

subsection \<open>Marking along a list of cells\<close>

lemma knowledge_fold_mark_safe:
  "knowledge (fold (\<lambda>c b. mark_safe b c) cs a)
     = map (fold (\<lambda>c s. Sentence_mark_safe s c) cs) (knowledge a)"
  by (induction cs arbitrary: a) (simp_all add: mark_safe_def comp_def)

lemma knowledge_fold_mark_mine:
  "knowledge (fold (\<lambda>c b. mark_mine b c) cs a)
     = map (fold (\<lambda>c s. Sentence_mark_mine s c) cs) (knowledge a)"
  by (induction cs arbitrary: a) (simp_all add: mark_mine_def comp_def)

lemma mines_fold_mark_safe: "mines (fold (\<lambda>c b. mark_safe b c) cs a) = mines a"
  by (induction cs arbitrary: a) (simp_all add: mark_safe_def)

lemma mines_fold_mark_mine: "mines (fold (\<lambda>c b. mark_mine b c) cs a) = mines a @ cs"
  by (induction cs arbitrary: a) (simp_all add: mark_mine_def)

lemma cells_fold_mark_safe:
  "cells (fold (\<lambda>c s. Sentence_mark_safe s c) cs s) = cells s - set cs"
  by (induction cs arbitrary: s) (auto simp: Sentence_mark_safe_def)

lemma cells_fold_mark_mine:
  "cells (fold (\<lambda>c s. Sentence_mark_mine s c) cs s) = cells s - set cs"
  by (induction cs arbitrary: s) (auto simp: Sentence_mark_mine_def)

lemma fold_mark_safe_id:
  "set cs \<inter> cells s = {} \<Longrightarrow> fold (\<lambda>c s. Sentence_mark_safe s c) cs s = s"
  by (induction cs arbitrary: s) (auto simp: Sentence_mark_safe_def)

lemma fold_mark_mine_id:
  "set cs \<inter> cells s = {} \<Longrightarrow> fold (\<lambda>c s. Sentence_mark_mine s c) cs s = s"
  by (induction cs arbitrary: s) (auto simp: Sentence_mark_mine_def)

lemma fold_union:
  "fold (\<lambda>s acc. acc \<union> f s) K A = A \<union> (\<Union>s \<in> set K. f s)"
  by (induction K arbitrary: A) auto

subsection \<open>Removal\<close>

lemma remove_all_props:
  "remove_all rs K = Inr K' \<Longrightarrow>
     set K' \<subseteq> set K \<and> (\<forall>x. count_list K' x \<le> count_list K x)
     \<and> (\<forall>x. x \<in> set K \<and> x \<notin> set rs \<longrightarrow> x \<in> set K')"
proof (induction rs arbitrary: K)
  case Nil
  then show ?case by simp
next
  case (Cons r rs)
  from Cons.prems have r: "r \<in> set K" and rest: "remove_all rs (remove1 r K) = Inr K'"
    by (auto split: if_splits)
  from Cons.IH [OF rest]
  have 1: "set K' \<subseteq> set (remove1 r K)"
    and 2: "\<forall>x. count_list K' x \<le> count_list (remove1 r K) x"
    and 3: "\<forall>x. x \<in> set (remove1 r K) \<and> x \<notin> set rs \<longrightarrow> x \<in> set K'"
    by blast+
  have "set K' \<subseteq> set K" using 1 set_remove1_subset [of r K] by blast
  moreover have "\<forall>x. count_list K' x \<le> count_list K x"
  proof
    fix x
    have "count_list (remove1 r K) x \<le> count_list K x" by simp
    with 2 show "count_list K' x \<le> count_list K x" using le_trans by blast
  qed
  moreover have "\<forall>x. x \<in> set K \<and> x \<notin> set (r # rs) \<longrightarrow> x \<in> set K'"
    using 3 by auto
  ultimately show ?case by blast
qed

lemma remove_all_total:
  "(\<And>x. count_list rs x \<le> count_list K x) \<Longrightarrow> \<exists>K'. remove_all rs K = Inr K'"
proof (induction rs arbitrary: K)
  case Nil
  then show ?case by simp
next
  case (Cons r rs)
  have "1 \<le> count_list K r" using Cons.prems [of r] by simp
  then have r: "r \<in> set K" using count_list_0_iff [of K r] by auto
  have "\<And>x. count_list rs x \<le> count_list (remove1 r K) x"
  proof -
    fix x
    show "count_list rs x \<le> count_list (remove1 r K) x"
      using Cons.prems [of x] by (cases "x = r") auto
  qed
  from Cons.IH [OF this] r show ?case by simp
qed

lemma count_list_filter_map:
  "(\<And>s. E s \<Longrightarrow> M s = s) \<Longrightarrow> count_list (filter E K) x \<le> count_list (map M K) x"
  by (induction K) auto

lemma guarded_remove_props:
  "set (fold (\<lambda>s K. if s \<in> set K then remove1 s K else K) rs K) \<subseteq> set K
   \<and> (\<forall>x. x \<in> set K \<and> x \<notin> set rs \<longrightarrow>
          x \<in> set (fold (\<lambda>s K. if s \<in> set K then remove1 s K else K) rs K))"
proof (induction rs arbitrary: K)
  case Nil
  then show ?case by simp
next
  case (Cons r rs)
  show ?case
  proof (cases "r \<in> set K")
    case True
    with Cons.IH [of "remove1 r K"] set_remove1_subset [of r K] show ?thesis by auto
  next
    case False
    with Cons.IH [of K] show ?thesis by auto
  qed
qed

lemma guarded_append_set:
  "set (fold (\<lambda>s K. if s \<notin> set K then K @ [s] else K) add K) = set K \<union> set add"
  by (induction add arbitrary: K) auto

subsection \<open>The subset scan\<close>

lemma count_list_ge2:
  assumes "i < j" "j < length K" "K ! i = K ! j"
  shows "2 \<le> count_list K (K ! j)"
proof -
  have K: "K = take j K @ K ! j # drop (Suc j) K"
    using assms(2) by (rule id_take_nth_drop)
  have "K ! i \<in> set (take j K)"
    using assms(1,2) by (auto simp: in_set_conv_nth intro!: exI [of _ i])
  then have "1 \<le> count_list (take j K) (K ! j)"
    using assms(3) count_list_0_iff [of "take j K" "K ! j"] by auto
  moreover have "count_list K (K ! j)
     = count_list (take j K) (K ! j) + count_list (K ! j # drop (Suc j) K) (K ! j)"
    by (subst K) (simp only: count_list_append)
  ultimately show ?thesis by simp
qed

lemma pair_step_ok:
  assumes "i < j" "j < length K" "scan_ok K acc"
  shows "scan_ok K (pair_step K i j acc)"
proof -
  obtain r d where acc: "acc = (r, d)" by (cases acc)
  have i: "K ! i \<in> set K" and j: "K ! j \<in> set K" using assms(1,2) by auto
  have c: "K ! i = K ! j \<Longrightarrow> 2 \<le> count_list K (K ! j)"
    using assms(1,2) by (rule count_list_ge2)
  from assms(3) i j c show ?thesis
    unfolding acc scan_ok_def pair_step_def Sentence_def by auto
qed

lemma subset_scan_ok: "scan_ok K (subset_scan K)"
  unfolding subset_scan_def
proof (rule fold_invariant [where Q = "\<lambda>i. i < length K"])
  show "scan_ok K ([], [])" by (simp add: scan_ok_def)
next
  fix i assume "i \<in> set [0 ..< length K - 1]"
  then show "i < length K" by auto
next
  fix i acc assume i: "i < length K" and acc: "scan_ok K acc"
  show "scan_ok K (fold (pair_step K i) [i + 1 ..< length K] acc)"
  proof (rule fold_invariant [where Q = "\<lambda>j. i < j \<and> j < length K"])
    show "scan_ok K acc" by (rule acc)
  next
    fix j assume "j \<in> set [i + 1 ..< length K]"
    then show "i < j \<and> j < length K" by auto
  next
    fix j acc' assume "i < j \<and> j < length K" and "scan_ok K acc'"
    then show "scan_ok K (pair_step K i j acc')" by (simp add: pair_step_ok)
  qed
qed

subsection \<open>The pass\<close>

lemma marked_cells: "cells (marked ord a s) \<subseteq> cells s"
  by (auto simp: marked_def cells_fold_mark_mine cells_fold_mark_safe)

lemma marked_empty: "cells s = {} \<Longrightarrow> marked ord a s = s"
  by (simp add: marked_def fold_mark_mine_id fold_mark_safe_id)

lemma simplify_shape:
  "\<exists>K'. simplify ord a
        = Inr ((fold (\<lambda>c b. mark_mine b c) (ord (mine_cells_of a))
                 (fold (\<lambda>c b. mark_safe b c) (ord (safe_cells_of a)) a))\<lparr>knowledge := K'\<rparr>)
      \<and> (\<forall>x \<in> set K'. \<exists>s \<in> set (knowledge a). cells x \<subseteq> cells s)
      \<and> (\<forall>x. x \<in> set (map (marked ord a) (knowledge a)) \<and> cells x \<noteq> {}
              \<and> count_list (map (marked ord a) (knowledge a)) x \<le> 1 \<longrightarrow> x \<in> set K')"
proof -
  let ?a1 = "fold (\<lambda>c b. mark_safe b c) (ord (safe_cells_of a)) a"
  let ?a2 = "fold (\<lambda>c b. mark_mine b c) (ord (mine_cells_of a)) ?a1"
  let ?rs = "filter (\<lambda>s. cells s = {}) (knowledge a)"
  let ?Km = "map (marked ord a) (knowledge a)"
  have Km: "knowledge ?a2 = ?Km"
    by (simp add: knowledge_fold_mark_mine knowledge_fold_mark_safe marked_def comp_def)
  have "\<And>x. count_list ?rs x \<le> count_list ?Km x"
    by (rule count_list_filter_map) (rule marked_empty)
  then obtain K3 where K3: "remove_all ?rs ?Km = Inr K3"
    using remove_all_total by blast
  from remove_all_props [OF K3]
  have K3sub: "set K3 \<subseteq> set ?Km"
    and K3cnt: "\<forall>x. count_list K3 x \<le> count_list ?Km x"
    and K3keep: "\<forall>x. x \<in> set ?Km \<and> x \<notin> set ?rs \<longrightarrow> x \<in> set K3"
    by blast+
  obtain r2 ad where sc: "subset_scan K3 = (r2, ad)" by (cases "subset_scan K3")
  let ?K4 = "fold (\<lambda>s K. if s \<in> set K then remove1 s K else K) r2 K3"
  let ?K5 = "fold (\<lambda>s K. if s \<notin> set K then K @ [s] else K) ad ?K4"
  have ok: "scan_ok K3 (r2, ad)" using subset_scan_ok [of K3] sc by simp
  have res: "simplify ord a = Inr (?a2\<lparr>knowledge := ?K5\<rparr>)"
    by (simp add: simplify_def Let_def fold_union safe_cells_of_def mine_cells_of_def Km [unfolded safe_cells_of_def mine_cells_of_def] K3 [unfolded safe_cells_of_def mine_cells_of_def] sc)
  have K5: "set ?K5 = set ?K4 \<union> set ad" by (rule guarded_append_set)
  have K4sub: "set ?K4 \<subseteq> set K3" using guarded_remove_props [of r2 K3] by blast
  have fin: "\<forall>x \<in> set ?K5. \<exists>s \<in> set (knowledge a). cells x \<subseteq> cells s"
  proof
    fix x assume "x \<in> set ?K5"
    then consider "x \<in> set K3" | "x \<in> set ad" using K5 K4sub by blast
    then obtain y where y: "y \<in> set K3" "cells x \<subseteq> cells y"
    proof cases
      case 1 then show ?thesis using that by blast
    next
      case 2 then show ?thesis using ok that unfolding scan_ok_def by auto
    qed
    from y(1) K3sub obtain s where s: "s \<in> set (knowledge a)" "y = marked ord a s" by auto
    with y(2) marked_cells [of ord a s] show "\<exists>s \<in> set (knowledge a). cells x \<subseteq> cells s"
      by blast
  qed
  have keep: "\<forall>x. x \<in> set ?Km \<and> cells x \<noteq> {} \<and> count_list ?Km x \<le> 1 \<longrightarrow> x \<in> set ?K5"
  proof (intro allI impI)
    fix x assume x: "x \<in> set ?Km \<and> cells x \<noteq> {} \<and> count_list ?Km x \<le> 1"
    then have "x \<notin> set ?rs" by auto
    with x K3keep have x3: "x \<in> set K3" by blast
    have "count_list K3 x \<le> 1" using K3cnt x le_trans by blast
    then have "x \<notin> set r2" using ok unfolding scan_ok_def by fastforce
    with x3 guarded_remove_props [of r2 K3] have "x \<in> set ?K4" by blast
    with K5 show "x \<in> set ?K5" by blast
  qed
  from res fin keep show ?thesis by blast
qed

lemma add_knowledge_revealed: "add_knowledge ord a cell cnt = simplify ord (revealed a cell cnt)"
  by (simp add: add_knowledge_def revealed_def Let_def)

lemma knowledge_revealed:
  "knowledge (revealed a cell cnt)
     = map (\<lambda>s. Sentence_mark_safe s cell) (knowledge a)
       @ [new_sentence (mark_safe (a\<lparr>moves_made := insert cell (moves_made a)\<rparr>) cell) cell cnt]"
  by (simp add: revealed_def Let_def mark_safe_def)

lemma mines_revealed: "mines (revealed a cell cnt) = mines a"
  by (simp add: revealed_def Let_def mark_safe_def)

lemma finite_new_sentence: "finite (cells (new_sentence a cell cnt))"
  by (simp add: new_sentence_def Sentence_def Let_def)

lemma finite_Sentence_mark_safe: "finite (cells s) \<Longrightarrow> finite (cells (Sentence_mark_safe s c))"
  by (simp add: Sentence_mark_safe_def)

lemma finite_revealed:
  "\<forall>s \<in> set (knowledge a). finite (cells s)
     \<Longrightarrow> \<forall>s \<in> set (knowledge (revealed a cell cnt)). finite (cells s)"
  by (auto simp: knowledge_revealed finite_new_sentence finite_Sentence_mark_safe)

lemma finite_mine_cells:
  "\<forall>s \<in> set (knowledge a). finite (cells s) \<Longrightarrow> finite (mine_cells_of a)"
  by (auto simp: mine_cells_of_def known_mines_def)

lemma finite_safe_cells:
  "\<forall>s \<in> set (knowledge a). finite (cells s) \<Longrightarrow> finite (safe_cells_of a)"
  by (auto simp: safe_cells_of_def known_safes_def)

lemma add_knowledge_total_mines:
  "\<exists>a'. add_knowledge ord a cell cnt = Inr a'
        \<and> mines a' = mines a @ ord (mine_cells_of (revealed a cell cnt))
        \<and> (\<forall>x \<in> set (knowledge a'). \<exists>s \<in> set (knowledge (revealed a cell cnt)). cells x \<subseteq> cells s)"
proof -
  from simplify_shape [of ord "revealed a cell cnt"]
  obtain K' where r: "simplify ord (revealed a cell cnt)
        = Inr ((fold (\<lambda>c b. mark_mine b c) (ord (mine_cells_of (revealed a cell cnt)))
                 (fold (\<lambda>c b. mark_safe b c) (ord (safe_cells_of (revealed a cell cnt)))
                    (revealed a cell cnt)))\<lparr>knowledge := K'\<rparr>)"
      and f: "\<forall>x \<in> set K'. \<exists>s \<in> set (knowledge (revealed a cell cnt)). cells x \<subseteq> cells s"
    by blast
  show ?thesis
    using f by (simp add: add_knowledge_revealed r mines_fold_mark_mine mines_fold_mark_safe
        mines_revealed)
qed

lemma add_knowledge_finite:
  assumes "\<forall>s \<in> set (knowledge a). finite (cells s)" "add_knowledge ord a cell cnt = Inr a'"
  shows "\<forall>s \<in> set (knowledge a'). finite (cells s)"
proof
  fix x assume x: "x \<in> set (knowledge a')"
  from add_knowledge_total_mines [of ord a cell cnt] assms(2)
  have "\<forall>x \<in> set (knowledge a'). \<exists>s \<in> set (knowledge (revealed a cell cnt)). cells x \<subseteq> cells s"
    by auto
  with x obtain s where s: "s \<in> set (knowledge (revealed a cell cnt))" "cells x \<subseteq> cells s"
    by blast
  from finite_revealed [OF assms(1)] s(1) have "finite (cells s)" by blast
  with s(2) show "finite (cells x)" by (rule finite_subset)
qed

lemma add_knowledge_finds_mine:
  assumes en: "enumerates ord"
    and fin: "\<forall>s \<in> set (knowledge a). finite (cells s)"
    and s: "s \<in> set (knowledge a)"
    and full: "int (card (cells s - {cell})) = count s"
    and c: "c \<in> cells s" "c \<noteq> cell"
  shows "\<exists>a'. add_knowledge ord a cell cnt = Inr a' \<and> c \<in> set (mines a')"
proof -
  let ?r = "revealed a cell cnt"
  have "Sentence_mark_safe s cell \<in> set (knowledge ?r)"
    using s by (simp add: knowledge_revealed)
  moreover have "c \<in> fst (known_mines (Sentence_mark_safe s cell))"
  proof -
    have cs: "cells (Sentence_mark_safe s cell) = cells s - {cell}"
      by (auto simp: Sentence_mark_safe_def)
    have ct: "count (Sentence_mark_safe s cell) = count s"
      by (simp add: Sentence_mark_safe_def)
    have "fst (known_mines (Sentence_mark_safe s cell)) = cells s - {cell}"
      by (simp only: known_mines_def cs ct full if_True fst_conv simp_thms)
    with c show ?thesis by simp
  qed
  ultimately have "c \<in> mine_cells_of ?r" unfolding mine_cells_of_def by blast
  moreover have "finite (mine_cells_of ?r)"
    using finite_revealed [OF fin] by (rule finite_mine_cells)
  ultimately have "c \<in> set (ord (mine_cells_of ?r))"
    using en unfolding enumerates_def by blast
  with add_knowledge_total_mines [of ord a cell cnt] show ?thesis by auto
qed

lemma upto_around_zero: "[- 1 .. 1 :: int] = [- 1, 0, 1]"
  by (simp add: upto.simps)

lemma neighbours_origin:
  "2 \<le> height a \<Longrightarrow> 2 \<le> width a \<Longrightarrow> neighbours a (0,0) = [(0,1), (1,0), (1,1)]"
  by (simp add: neighbours_def upto_around_zero)

lemma known_safes_subset: "fst (known_safes s) \<subseteq> cells s"
  by (simp add: known_safes_def)

lemma known_mines_subset: "fst (known_mines s) \<subseteq> cells s"
  by (simp add: known_mines_def)

lemma add_knowledge_keeps_sentence:
  assumes en: "enumerates ord"
    and fin: "\<forall>s \<in> set (knowledge a). finite (cells s) \<and> cells s \<inter> D = {}"
    and new: "new_sentence (mark_safe (a\<lparr>moves_made := insert cell (moves_made a)\<rparr>) cell) cell cnt = S"
    and S: "cells S \<noteq> {}" "cells S \<subseteq> D" "count S \<noteq> 0" "int (card (cells S)) \<noteq> count S"
  shows "\<exists>a'. add_knowledge ord a cell cnt = Inr a' \<and> S \<in> set (knowledge a')"
proof -
  let ?r = "revealed a cell cnt"
  let ?K0 = "map (\<lambda>s. Sentence_mark_safe s cell) (knowledge a)"
  have K: "knowledge ?r = ?K0 @ [S]" by (simp add: knowledge_revealed new)
  have old: "\<forall>s \<in> set ?K0. finite (cells s) \<and> cells s \<inter> D = {}"
  proof
    fix s assume "s \<in> set ?K0"
    then obtain t where t: "t \<in> set (knowledge a)" "s = Sentence_mark_safe t cell" by auto
    have "cells s \<subseteq> cells t" unfolding t(2) by (auto simp: Sentence_mark_safe_def)
    moreover from fin t(1) have "finite (cells t)" "cells t \<inter> D = {}" by blast+
    ultimately show "finite (cells s) \<and> cells s \<inter> D = {}"
      using finite_subset by blast
  qed
  have finS: "finite (cells S)" using new finite_new_sentence by blast
  have finr: "\<forall>s \<in> set (knowledge ?r). finite (cells s)"
    using old finS by (simp add: K)
  have sc: "safe_cells_of ?r \<inter> D = {}"
  proof -
    have "fst (known_safes S) = {}" using S(3) by (simp add: known_safes_def)
    moreover have "\<forall>s \<in> set ?K0. fst (known_safes s) \<inter> D = {}"
      using old known_safes_subset by blast
    ultimately show ?thesis unfolding safe_cells_of_def K by simp blast
  qed
  have mc: "mine_cells_of ?r \<inter> D = {}"
  proof -
    have "fst (known_mines S) = {}" using S(4) by (simp add: known_mines_def)
    moreover have "\<forall>s \<in> set ?K0. fst (known_mines s) \<inter> D = {}"
      using old known_mines_subset by blast
    ultimately show ?thesis unfolding mine_cells_of_def K by simp blast
  qed
  have "set (ord (safe_cells_of ?r)) = safe_cells_of ?r" "set (ord (mine_cells_of ?r)) = mine_cells_of ?r"
    using en finite_safe_cells [OF finr] finite_mine_cells [OF finr]
    unfolding enumerates_def by blast+
  with sc mc S(2) have dj: "set (ord (safe_cells_of ?r)) \<inter> cells S = {}"
      "set (ord (mine_cells_of ?r)) \<inter> cells S = {}"
    by blast+
  have mS: "marked ord ?r S = S"
    by (simp add: marked_def fold_mark_safe_id [OF dj(1)] fold_mark_mine_id [OF dj(2)])
  have "\<forall>s \<in> set ?K0. marked ord ?r s \<noteq> S"
  proof
    fix s assume "s \<in> set ?K0"
    with old have "cells s \<inter> D = {}" by blast
    with marked_cells [of ord ?r s] have "cells (marked ord ?r s) \<inter> D = {}" by blast
    with S(1,2) show "marked ord ?r s \<noteq> S" by auto
  qed
  then have "S \<notin> set (map (marked ord ?r) ?K0)" by auto
  then have cnt: "count_list (map (marked ord ?r) (knowledge ?r)) S \<le> 1"
    by (simp add: K mS)
  have mem: "S \<in> set (map (marked ord ?r) (knowledge ?r))"
    by (simp add: K mS)
  from simplify_shape [of ord ?r] mem cnt S(1) show ?thesis
    by (auto simp: add_knowledge_revealed)
qed

section \<open>The two-reveal scenario\<close>

text \<open>
  C3, as stated, fails. On a 2 by 2 board with \<open>(1,1)\<close> known safe, the only
  neighbours of \<open>(0,0)\<close> not known safe are \<open>(0,1)\<close> and \<open>(1,0)\<close>; yet after
  \<open>add_knowledge((0,0), 1)\<close> and \<open>add_knowledge((0,1), 0)\<close> the cell \<open>(1,0)\<close> is not in
  \<open>mines\<close> when the knowledge base already held the sentence \<open>{(1,0)} = 0\<close>, and it is
  not when \<open>(0,1)\<close> was already a known mine.
\<close>

theorem scenario_fails_with_prior_knowledge:
  "add_knowledge sorted_list_of_set
        \<lparr>height = 2, width = 2, moves_made = {}, mines = [],
         safes = [(1,1)], knowledge = [\<lparr>cells = {(1,0)}, count = 0\<rparr>]\<rparr> (0,0) 1
     = Inr \<lparr>height = 2, width = 2, moves_made = {(0,0)}, mines = [],
            safes = [(1,1), (0,0), (1,0)],
            knowledge = [\<lparr>cells = {}, count = 0\<rparr>, \<lparr>cells = {(0,1)}, count = 1\<rparr>]\<rparr>
   \<and> add_knowledge sorted_list_of_set
        \<lparr>height = 2, width = 2, moves_made = {(0,0)}, mines = [],
            safes = [(1,1), (0,0), (1,0)],
            knowledge = [\<lparr>cells = {}, count = 0\<rparr>, \<lparr>cells = {(0,1)}, count = 1\<rparr>]\<rparr> (0,1) 0
     = Inr \<lparr>height = 2, width = 2, moves_made = {(0,1), (0,0)}, mines = [],
            safes = [(1,1), (0,0), (1,0), (0,1)], knowledge = []\<rparr>
   \<and> add_knowledge sorted_list_of_set
        \<lparr>height = 2, width = 2, moves_made = {}, mines = [(0,1)],
         safes = [(1,1)], knowledge = []\<rparr> (0,0) 1
     = Inr \<lparr>height = 2, width = 2, moves_made = {(0,0)}, mines = [(0,1)],
            safes = [(1,1), (0,0), (0,1), (1,0)],
            knowledge = [\<lparr>cells = {}, count = 0\<rparr>]\<rparr>
   \<and> add_knowledge sorted_list_of_set
        \<lparr>height = 2, width = 2, moves_made = {(0,0)}, mines = [(0,1)],
            safes = [(1,1), (0,0), (0,1), (1,0)],
            knowledge = [\<lparr>cells = {}, count = 0\<rparr>]\<rparr> (0,1) 0
     = Inr \<lparr>height = 2, width = 2, moves_made = {(0,1), (0,0)}, mines = [(0,1)],
            safes = [(1,1), (0,0), (0,1), (1,0), (0,1)], knowledge = []\<rparr>
   \<and> (1,0) \<notin> set ([] :: cell list) \<and> (1,0) \<notin> set [(0::int,1::int)]"
  by code_simp

text \<open>
  C3, amended. Let the board have at least two rows and two columns, let \<open>(1,1)\<close> be
  known safe and \<open>(0,1)\<close>, \<open>(1,0)\<close> not, let neither \<open>(0,1)\<close> nor \<open>(1,1)\<close> be a known
  mine, and let no sentence of the knowledge base mention \<open>(0,1)\<close> or \<open>(1,0)\<close>. Then
  \<open>add_knowledge((0,0), 1)\<close> followed by \<open>add_knowledge((0,1), 0)\<close> both return, and
  \<open>(1,0)\<close> is in \<open>mines\<close> afterwards, whatever the order in which the sets are
  iterated.
\<close>

theorem scenario_deduces_mine:
  assumes en: "enumerates ord1" "enumerates ord2"
    and board: "2 \<le> height a" "2 \<le> width a"
    and safe: "(1,1) \<in> set (safes a)" "(0,1) \<notin> set (safes a)" "(1,0) \<notin> set (safes a)"
    and mine: "(0,1) \<notin> set (mines a)" "(1,1) \<notin> set (mines a)"
    and old: "\<forall>s \<in> set (knowledge a). finite (cells s) \<and> (0,1) \<notin> cells s \<and> (1,0) \<notin> cells s"
  shows "\<exists>a1 a2. add_knowledge ord1 a (0,0) 1 = Inr a1 \<and> add_knowledge ord2 a1 (0,1) 0 = Inr a2
           \<and> (1,0) \<in> set (mines a2)"
proof (cases "(1,0) \<in> set (mines a)")
  case True
  from add_knowledge_total_mines [of ord1 a "(0,0)" 1]
  obtain a1 where a1: "add_knowledge ord1 a (0,0) 1 = Inr a1" "set (mines a) \<subseteq> set (mines a1)"
    by auto
  from add_knowledge_total_mines [of ord2 a1 "(0,1)" 0]
  obtain a2 where a2: "add_knowledge ord2 a1 (0,1) 0 = Inr a2" "set (mines a1) \<subseteq> set (mines a2)"
    by auto
  from True a1 a2 show ?thesis by blast
next
  case False
  let ?S = "Sentence {(0,1), (1,0)} 1"
  have fin: "\<forall>s \<in> set (knowledge a). finite (cells s) \<and> cells s \<inter> {(0,1), (1,0)} = {}"
    using old by auto
  have new: "new_sentence (mark_safe (a\<lparr>moves_made := insert (0,0) (moves_made a)\<rparr>) (0,0)) (0,0) 1 = ?S"
    using board safe mine False
    by (auto simp: new_sentence_def Let_def neighbours_origin mark_safe_def Sentence_def)
  have "\<exists>a'. add_knowledge ord1 a (0,0) 1 = Inr a' \<and> ?S \<in> set (knowledge a')"
    by (rule add_knowledge_keeps_sentence [OF en(1) fin new]) (simp_all add: Sentence_def)
  then obtain a1 where a1: "add_knowledge ord1 a (0,0) 1 = Inr a1" "?S \<in> set (knowledge a1)"
    by blast
  have fin1: "\<forall>s \<in> set (knowledge a1). finite (cells s)"
    using old by (intro add_knowledge_finite [OF _ a1(1)]) blast
  have "\<exists>a'. add_knowledge ord2 a1 (0,1) 0 = Inr a' \<and> (1,0) \<in> set (mines a')"
    by (rule add_knowledge_finds_mine [OF en(2) fin1 a1(2)]) (simp_all add: Sentence_def)
  with a1(1) show ?thesis by blast
qed

theorem scenario_deduces_mine_witness:
  "enumerates sorted_list_of_set
   \<and> add_knowledge sorted_list_of_set
        \<lparr>height = 2, width = 2, moves_made = {}, mines = [], safes = [(1,1)],
         knowledge = []\<rparr> (0,0) 1
     = Inr \<lparr>height = 2, width = 2, moves_made = {(0,0)}, mines = [],
            safes = [(1,1), (0,0)],
            knowledge = [\<lparr>cells = {(0,1), (1,0)}, count = 1\<rparr>]\<rparr>
   \<and> add_knowledge sorted_list_of_set
        \<lparr>height = 2, width = 2, moves_made = {(0,0)}, mines = [],
         safes = [(1,1), (0,0)],
         knowledge = [\<lparr>cells = {(0,1), (1,0)}, count = 1\<rparr>]\<rparr> (0,1) 0
     = Inr \<lparr>height = 2, width = 2, moves_made = {(0,1), (0,0)}, mines = [(1,0)],
            safes = [(1,1), (0,0), (0,1), (1,0)],
            knowledge = [\<lparr>cells = {}, count = 1\<rparr>, \<lparr>cells = {}, count = 0\<rparr>]\<rparr>
   \<and> (\<exists>a1 a2. add_knowledge sorted_list_of_set
        \<lparr>height = 2, width = 2, moves_made = {}, mines = [], safes = [(1,1)],
         knowledge = []\<rparr> (0,0) 1 = Inr a1
      \<and> add_knowledge sorted_list_of_set a1 (0,1) 0 = Inr a2 \<and> (1,0) \<in> set (mines a2))"
proof -
  let ?a = "\<lparr>height = 2, width = 2, moves_made = {}, mines = [], safes = [(1,1)],
         knowledge = []\<rparr>"
  have e: "enumerates sorted_list_of_set" by (simp add: enumerates_def)
  have k1: "add_knowledge sorted_list_of_set ?a (0,0) 1
     = Inr \<lparr>height = 2, width = 2, moves_made = {(0,0)}, mines = [],
            safes = [(1,1), (0,0)],
            knowledge = [\<lparr>cells = {(0,1), (1,0)}, count = 1\<rparr>]\<rparr>"
    by code_simp
  have k2: "add_knowledge sorted_list_of_set
        \<lparr>height = 2, width = 2, moves_made = {(0,0)}, mines = [],
         safes = [(1,1), (0,0)],
         knowledge = [\<lparr>cells = {(0,1), (1,0)}, count = 1\<rparr>]\<rparr> (0,1) 0
     = Inr \<lparr>height = 2, width = 2, moves_made = {(0,1), (0,0)}, mines = [(1,0)],
            safes = [(1,1), (0,0), (0,1), (1,0)],
            knowledge = [\<lparr>cells = {}, count = 1\<rparr>, \<lparr>cells = {}, count = 0\<rparr>]\<rparr>"
    by code_simp
  have "\<exists>a1 a2. add_knowledge sorted_list_of_set ?a (0,0) 1 = Inr a1
      \<and> add_knowledge sorted_list_of_set a1 (0,1) 0 = Inr a2 \<and> (1,0) \<in> set (mines a2)"
    by (rule scenario_deduces_mine [OF e e]) simp_all
  with e k1 k2 show ?thesis by blast
qed

section \<open>A further pass after add_knowledge\<close>






end
